theory Spec2Isabelle
  imports Complex_Main "HOL-Library.Sublist" "HOL-Library.AList"
begin

section \<open>The CSV pagination endpoint: embedding of \<^verbatim>\<open>src/app/api/route.ts\<close>\<close>

text \<open>
  The route exports one handler, \<^verbatim>\<open>POST\<close>. It talks to three packages: a Redis client
  (get, set with expiry, disconnect), an HTTP client (\<^verbatim>\<open>Axios.get\<close>) and the streaming
  parser of \<^verbatim>\<open>csv-parse\<close>. The handler is embedded with explicit state passing over a
  \<open>world\<close> (the Redis store with expiry instants, a clock, the remote resources, and a trace
  of the effects performed); every throw is a value \<open>Inl\<close> of a sum type.

  Conventions of the embedding:
  \<^item> JavaScript numbers are doubles. The numbers of a request are integers (\<open>int\<close>), taken
    below \<^verbatim>\<open>1e21\<close> in magnitude, where \<^verbatim>\<open>toString\<close> prints all digits. Arithmetic on a
    total is followed only while the total is a safe integer (at most \<open>MAX_SAFE_INTEGER\<close>
    in magnitude), where the arithmetic of doubles is exact; a total beyond that is \<open>Beyond\<close>,
    a number of which the model says nothing. \<open>NaN\<close> is kept where \<^verbatim>\<open>parseInt\<close> can produce
    it. A count of lines is a safe integer. The window \<open>(page - 1) * limit\<close> is exact while
    it is a safe integer; beyond, it lies past the end of every stream, rounded or not.
  \<^item> The request fields have the types of the endpoint's contract: \<^verbatim>\<open>url\<close> and
    \<^verbatim>\<open>filter\<close> are strings or absent, \<^verbatim>\<open>page\<close> and \<^verbatim>\<open>limit\<close> are integers or absent.
  \<^item> Strings are byte strings; \<^verbatim>\<open>toLowerCase\<close> is modelled on ASCII letters.
  \<^item> The clock does not advance while one request is handled.
  \<^item> \<^verbatim>\<open>CACHE_EXPIRY_SECONDS\<close> is the number of seconds given to \<^verbatim>\<open>SET ... EX\<close>; an entry
    written at instant \<open>t\<close> is readable at the instants below \<open>t + CACHE_EXPIRY_SECONDS\<close>.
  \<^item> Header names are distinct up to case and header values carry no outer blanks, so that
    a header is sent as it is given, under its lower-case name.
\<close>

subsection \<open>Imported constants\<close>

text \<open>
  \<^verbatim>\<open>./utils/constants\<close> and \<^verbatim>\<open>../utils/constants\<close> are imported by the route; their values
  are parameters of the model.
\<close>

record config =
  CACHE_EXPIRY_SECONDS :: nat
  DEFAULT_RESPONSE_HEADERS :: "(string \<times> string) list"
  MANDATORY_HEADERS :: "string list"
  STREAM_TIMEOUT_MS :: nat
  DEFAULT_PAGE_SIZES :: "int list"

subsection \<open>Values\<close>

datatype number = Num int | NaN | Beyond

definition MAX_SAFE_INTEGER :: int where
  "MAX_SAFE_INTEGER = 2 ^ 53 - 1"

datatype error = Error string

text \<open>
  A parsed CSV record: an object from column name to string, as an association list. The
  route only asks whether some value matches and whether a name is among the keys, so the
  order in which JavaScript enumerates the keys plays no role.
\<close>

type_synonym csv_record = "(string \<times> string) list"

record responseData =
  results :: "csv_record list"
  pageCount :: number

text \<open>
  The body that \<^verbatim>\<open>NextResponse.json\<close> sends. \<open>pageCount = NaN\<close> stands for the \<^verbatim>\<open>null\<close>
  that JSON serialisation writes for it.
\<close>

datatype json = ErrorJson string | DataJson responseData | NumberJson number

text \<open>
  A reply as the route builds it: \<open>headers\<close> is the \<^verbatim>\<open>headers\<close> option of the init argument
  of \<^verbatim>\<open>NextResponse.json\<close>, \<open>None\<close> when the route gives none. The headers that are sent
  are \<open>sent_headers\<close> below.
\<close>

record response =
  status :: nat
  headers :: "(string \<times> string) list option"
  body :: json

text \<open>
  The request body after \<^verbatim>\<open>await req.json()\<close>; \<open>None\<close> is a field that is absent
  (\<^verbatim>\<open>undefined\<close>).
\<close>

record request =
  req_url :: "string option"
  req_filter :: "string option"
  req_page :: "int option"
  req_limit :: "int option"

subsection \<open>Strings\<close>

fun digits :: "nat \<Rightarrow> string" where
  "digits n =
     (if n < 10 then [char_of (48 + n)]
      else digits (n div 10) @ [char_of (48 + n mod 10)])"

declare digits.simps [simp del]

text \<open>\<^verbatim>\<open>${n}\<close> and \<^verbatim>\<open>n.toString()\<close> for an integer \<open>n\<close>.\<close>

definition toString :: "int \<Rightarrow> string" where
  "toString n = (if n < 0 then CHR ''-'' # digits (nat (- n)) else digits (nat n))"

definition endsWith :: "string \<Rightarrow> string \<Rightarrow> bool" where
  "endsWith s t = suffix t s"

definition lower_char :: "char \<Rightarrow> char" where
  "lower_char c =
     (let n = (of_char c :: nat) in if 65 \<le> n \<and> n \<le> 90 then char_of (n + 32) else c)"

definition toLowerCase :: "string \<Rightarrow> string" where
  "toLowerCase s = map lower_char s"

text \<open>\<^verbatim>\<open>s.includes(t)\<close>: \<open>t\<close> occurs in \<open>s\<close> as a contiguous substring.\<close>

fun includes_str :: "string \<Rightarrow> string \<Rightarrow> bool" where
  "includes_str [] t = (t = [])"
| "includes_str (c # s) t = (prefix t (c # s) \<or> includes_str s t)"

text \<open>\<^verbatim>\<open>s.split("\n")\<close>: the pieces between the separators, at least one piece.\<close>

fun split :: "string \<Rightarrow> char \<Rightarrow> string list" where
  "split [] sep = [[]]"
| "split (c # s) sep =
     (if c = sep then [] # split s sep
      else (case split s sep of [] \<Rightarrow> [[c]] | piece # pieces \<Rightarrow> (c # piece) # pieces))"

fun findIndex :: "('a \<Rightarrow> bool) \<Rightarrow> 'a list \<Rightarrow> int" where
  "findIndex p [] = - 1"
| "findIndex p (x # xs) =
     (if p x then 0 else (let i = findIndex p xs in if i = - 1 then - 1 else i + 1))"

definition Object_keys :: "csv_record \<Rightarrow> string list" where
  "Object_keys record = map fst record"

definition Object_values :: "csv_record \<Rightarrow> string list" where
  "Object_values record = map snd record"

subsection \<open>The Redis store, the remote resources, the trace\<close>

text \<open>
  The store holds the two kinds of text the handler writes: \<open>Stringified d\<close> is
  \<^verbatim>\<open>JSON.stringify(d)\<close>, \<open>Decimal n\<close> is \<^verbatim>\<open>n.toString()\<close>. Both texts are non-empty,
  hence truthy when read back. \<^verbatim>\<open>JSON.parse\<close> and \<^verbatim>\<open>parseInt\<close> read them: the text of a
  number parses as JSON to that number, and \<^verbatim>\<open>parseInt\<close> of a JSON object text, which
  starts with a brace, is \<open>NaN\<close>. The digits of a safe integer denote that integer;
  beyond, they denote the nearest double, which the model does not follow.
\<close>

datatype cached = Stringified responseData | Decimal int

text \<open>The number that the digits of an integer denote.\<close>

definition to_number :: "int \<Rightarrow> number" where
  "to_number n = (if \<bar>n\<bar> \<le> MAX_SAFE_INTEGER then Num n else Beyond)"

fun JSON_parse :: "cached \<Rightarrow> json" where
  "JSON_parse (Stringified d) = DataJson d"
| "JSON_parse (Decimal n) = NumberJson (to_number n)"

fun parseInt :: "cached \<Rightarrow> number" where
  "parseInt (Decimal n) = to_number n"
| "parseInt (Stringified d) = NaN"

text \<open>
  A physical row as the lexer of \<^verbatim>\<open>csv-parse\<close> (with \<^verbatim>\<open>relax_quotes\<close> and \<^verbatim>\<open>trim\<close>)
  delivers it: its fields, or the error the lexer raises on it.
\<close>

datatype lexed = Fields "string list" | Invalid string

text \<open>
  \<^verbatim>\<open>response.data\<close> of a plain \<^verbatim>\<open>Axios.get\<close>: Axios delivers a body that is valid JSON
  parsed, so the data is a string only when the body is not JSON (or is a JSON string,
  which it delivers decoded). \<open>OtherData msg\<close> is a value that is not a string; \<open>msg\<close> is
  the message of the \<^verbatim>\<open>TypeError\<close> that calling \<^verbatim>\<open>split\<close> on it raises
  (\<^verbatim>\<open>csvString.split is not a function\<close> for a number, a boolean, an array or an object).
\<close>

datatype axios_data = StringData string | OtherData string

text \<open>
  A remote resource: \<open>data\<close> is what a plain GET delivers, \<open>rows\<close> are the rows the
  parser's lexer reads off the streamed body (\<^verbatim>\<open>responseType: "stream"\<close>, never parsed as
  JSON), header row first.
\<close>

record csv_resource =
  data :: axios_data
  rows :: "lexed list"

datatype event =
    Connect
  | RedisGet string
  | RedisSet string cached nat
  | AxiosGet string
  | AxiosGetStream string nat
  | Disconnect

record world =
  store :: "string \<Rightarrow> (cached \<times> nat) option"
  clock :: nat
  redis_error :: "error option"
  remote :: "string \<Rightarrow> error + csv_resource"
  trace :: "event list"

text \<open>The value under a key, unless the entry has expired.\<close>

definition live :: "world \<Rightarrow> string \<Rightarrow> cached option" where
  "live w k =
     (case store w k of
        None \<Rightarrow> None
      | Some (v, expiry) \<Rightarrow> if clock w < expiry then Some v else None)"

text \<open>The instant at which the entry under a key expires (0 when there is none).\<close>

definition expiry :: "world \<Rightarrow> string \<Rightarrow> nat" where
  "expiry w k = (case store w k of None \<Rightarrow> 0 | Some (v, e) \<Rightarrow> e)"

text \<open>\<^verbatim>\<open>get\<close>: the live value under the key; rejects when Redis is down.\<close>

definition redis_get :: "string \<Rightarrow> world \<Rightarrow> (error + cached option) \<times> world" where
  "redis_get k w =
     (let w' = w\<lparr>trace := trace w @ [RedisGet k]\<rparr> in
      case redis_error w of
        Some e \<Rightarrow> (Inl e, w')
      | None \<Rightarrow> (Inr (live w k), w'))"

text \<open>
  \<^verbatim>\<open>set(key, value, "EX", seconds)\<close>. Redis wants a positive number of seconds and answers
  0 with an error, which rejects the call.
\<close>

definition invalid_expire_time :: error where
  "invalid_expire_time =
     Error (''ERR invalid expire time in '' @ [CHR 0x27] @ ''set'' @ [CHR 0x27] @ '' command'')"

definition redis_set :: "string \<Rightarrow> cached \<Rightarrow> nat \<Rightarrow> world \<Rightarrow> (error + unit) \<times> world" where
  "redis_set k v seconds w =
     (let w' = w\<lparr>trace := trace w @ [RedisSet k v seconds]\<rparr> in
      case redis_error w of
        Some e \<Rightarrow> (Inl e, w')
      | None \<Rightarrow>
          if seconds = 0 then (Inl invalid_expire_time, w')
          else (Inr (), w'\<lparr>store := (store w)(k \<mapsto> (v, clock w + seconds))\<rparr>))"

definition Axios_get :: "string \<Rightarrow> world \<Rightarrow> (error + csv_resource) \<times> world" where
  "Axios_get u w = (remote w u, w\<lparr>trace := trace w @ [AxiosGet u]\<rparr>)"

definition Axios_get_stream :: "string \<Rightarrow> nat \<Rightarrow> world \<Rightarrow> (error + csv_resource) \<times> world" where
  "Axios_get_stream u timeout w = (remote w u, w\<lparr>trace := trace w @ [AxiosGetStream u timeout]\<rparr>)"

subsection \<open>The parser of \<^verbatim>\<open>csv-parse\<close> as the route configures it\<close>

text \<open>
  \<^verbatim>\<open>columns: true\<close>: the first row gives the column names and is not a record; every
  later row must have as many fields as there are columns and becomes an object
  (a repeated column name keeps its last value); the message of the error raised on a row
  of another length is abbreviated.
  \<^verbatim>\<open>from\<close>, \<^verbatim>\<open>to\<close>: records are numbered from 1; the records numbered \<open>from\<close> and
  above are handled, and the parser stops after the record numbered \<open>to\<close>
  (both ends inclusive, as the package documents them).
  \<^verbatim>\<open>on_record\<close>: applied to each handled record; a \<^verbatim>\<open>null\<close> result drops the record.
\<close>

definition to_object :: "string list \<Rightarrow> string list \<Rightarrow> csv_record" where
  "to_object columns fs = fold (\<lambda>(k, v) obj. AList.update k v obj) (zip columns fs) []"

fun records_loop ::
  "string list \<Rightarrow> int \<Rightarrow> int \<Rightarrow> (csv_record \<Rightarrow> csv_record option) \<Rightarrow> int \<Rightarrow> lexed list
     \<Rightarrow> error + csv_record list" where
  "records_loop columns from to on_rec n [] = Inr []"
| "records_loop columns from to on_rec n (Invalid msg # rest) = Inl (Error msg)"
| "records_loop columns from to on_rec n (Fields fs # rest) =
     (if length fs \<noteq> length columns then Inl (Error ''Invalid Record Length'')
      else
        (let n' = n + 1;
             out = (if from \<le> n'
                    then (case on_rec (to_object columns fs) of
                            None \<Rightarrow> [] | Some r \<Rightarrow> [r])
                    else [])
         in if to \<le> n' then Inr out
            else (case records_loop columns from to on_rec n' rest of
                    Inl e \<Rightarrow> Inl e
                  | Inr rs \<Rightarrow> Inr (out @ rs))))"

text \<open>\<^verbatim>\<open>new Parser(options)\<close> rejects a negative \<^verbatim>\<open>from\<close> and a \<^verbatim>\<open>to\<close> below 1.\<close>

definition Parser_options :: "int \<Rightarrow> int \<Rightarrow> error option" where
  "Parser_options from to =
     (if from < 0 then Some (Error ''Invalid Option: from must be a positive integer'')
      else if to \<le> 0
        then Some (Error ''Invalid Option: to must be a positive integer greater than 0'')
      else None)"

text \<open>Piping the stream into the parser and collecting it with \<^verbatim>\<open>for await\<close>.\<close>

definition Parser_run ::
  "int \<Rightarrow> int \<Rightarrow> (csv_record \<Rightarrow> csv_record option) \<Rightarrow> lexed list \<Rightarrow> error + csv_record list" where
  "Parser_run from to on_rec stream =
     (case stream of
        [] \<Rightarrow> Inr []
      | Invalid msg # rest \<Rightarrow> Inl (Error msg)
      | Fields columns # rest \<Rightarrow> records_loop columns from to on_rec 0 rest)"

subsection \<open>The handler\<close>

text \<open>
  The \<^verbatim>\<open>on_record\<close> callback (lines 124 to 134). An absent and an empty filter are falsy.
  Every value of a parsed record is a string, so \<^verbatim>\<open>typeof value === "string"\<close> holds.
\<close>

definition on_record :: "string option \<Rightarrow> csv_record \<Rightarrow> csv_record option" where
  "on_record filter' record =
     (case filter' of
        None \<Rightarrow> Some record
      | Some f \<Rightarrow>
          if f = [] then Some record
          else
            (let isFilterValuePresentInRecord =
               (findIndex (\<lambda>value. includes_str (toLowerCase value) (toLowerCase f))
                  (Object_values record) > - 1)
             in if isFilterValuePresentInRecord then Some record else None))"

text \<open>The template literals of lines 88 and 96; an absent filter prints as \<^verbatim>\<open>undefined\<close>.\<close>

definition responseKey :: "string \<Rightarrow> int \<Rightarrow> int \<Rightarrow> string option \<Rightarrow> string" where
  "responseKey url page limit filter' =
     url @ ''-'' @ toString page @ ''-'' @ toString limit @ ''-'' @
       (case filter' of None \<Rightarrow> ''undefined'' | Some f \<Rightarrow> f)"

definition totalKey :: "string \<Rightarrow> string" where
  "totalKey url = url @ ''-total''"

definition json_error :: "config \<Rightarrow> nat \<Rightarrow> string \<Rightarrow> response" where
  "json_error cfg code msg =
     \<lparr>status = code, headers = Some (DEFAULT_RESPONSE_HEADERS cfg), body = ErrorJson msg\<rparr>"

text \<open>
  The headers a reply is sent with: \<^verbatim>\<open>NextResponse.json\<close> takes the headers of the init
  argument, their names in lower case, and adds \<^verbatim>\<open>content-type: application/json\<close> when
  the init argument names no content type.
\<close>

definition sent_headers :: "response \<Rightarrow> (string \<times> string) list" where
  "sent_headers resp =
     (let init = (case headers resp of None \<Rightarrow> [] | Some hs \<Rightarrow> map (\<lambda>(k, v). (toLowerCase k, v)) hs)
      in if ''content-type'' \<in> set (map fst init) then init
         else init @ [(''content-type'', ''application/json'')])"

text \<open>A reply carries a set of headers: each of them is sent, under its lower-case name.\<close>

definition carries :: "response \<Rightarrow> (string \<times> string) list \<Rightarrow> bool" where
  "carries resp hs = list_all (\<lambda>(k, v). (toLowerCase k, v) \<in> set (sent_headers resp)) hs"

text \<open>
  \<^verbatim>\<open>limit > DEFAULT_PAGE_SIZES[DEFAULT_PAGE_SIZES.length - 1]\<close>: with an empty array the
  right-hand side is \<^verbatim>\<open>undefined\<close> and the comparison is false.
\<close>

definition above_last :: "int \<Rightarrow> int list \<Rightarrow> bool" where
  "above_last limit sizes = (case sizes of [] \<Rightarrow> False | _ \<Rightarrow> limit > last sizes)"

text \<open>\<^verbatim>\<open>a % b\<close>: the remainder has the sign of the dividend.\<close>

definition js_rem :: "int \<Rightarrow> int \<Rightarrow> int" where
  "js_rem a b = sgn a * (\<bar>a\<bar> mod \<bar>b\<bar>)"

text \<open>
  Lines 178 to 181; arithmetic on \<open>NaN\<close> gives \<open>NaN\<close> and \<^verbatim>\<open>NaN % limit === 0\<close> is false.
  On a safe integer total and a limit of at least 1 the remainder, the exact quotient and
  the floor of the rounded quotient plus 1 are what the doubles give.
\<close>

definition pageCount_of :: "number \<Rightarrow> int \<Rightarrow> number" where
  "pageCount_of totalNoOfLines limit =
     (case totalNoOfLines of
        NaN \<Rightarrow> NaN
      | Beyond \<Rightarrow> Beyond
      | Num t \<Rightarrow> if js_rem t limit = 0 then Num (t div limit) else Num (t div limit + 1))"

text \<open>Lines 96 to 111: the total from the cache, or from a full fetch that is then cached.\<close>

definition resolve_total :: "config \<Rightarrow> string \<Rightarrow> world \<Rightarrow> (error + number) \<times> world" where
  "resolve_total cfg url w =
     (case redis_get (totalKey url) w of
        (Inl e, w1) \<Rightarrow> (Inl e, w1)
      | (Inr (Some urlCacheTotal), w1) \<Rightarrow> (Inr (parseInt urlCacheTotal), w1)
      | (Inr None, w1) \<Rightarrow>
          (case Axios_get url w1 of
             (Inl e, w2) \<Rightarrow> (Inl e, w2)
           | (Inr resp, w2) \<Rightarrow>
               (case data resp of
                  OtherData msg \<Rightarrow> (Inl (Error msg), w2)
                | StringData csvString \<Rightarrow>
                    (let totalNoOfLines = int (length (split csvString CHR 0x0A)) - 1
                     in case redis_set (totalKey url) (Decimal totalNoOfLines)
                               (CACHE_EXPIRY_SECONDS cfg) w2 of
                          (Inl e, w3) \<Rightarrow> (Inl e, w3)
                        | (Inr _, w3) \<Rightarrow> (Inr (Num totalNoOfLines), w3)))))"

text \<open>Lines 113 to 145: the window, the parser, the streamed fetch, the collected records.\<close>

definition fetch_records ::
  "config \<Rightarrow> string \<Rightarrow> string option \<Rightarrow> int \<Rightarrow> int \<Rightarrow> world
     \<Rightarrow> (error + csv_record list) \<times> world" where
  "fetch_records cfg url filter' page limit w =
     (let from = (page - 1) * limit;
          to = from + limit
      in case Parser_options from to of
           Some e \<Rightarrow> (Inl e, w)
         | None \<Rightarrow>
             (case Axios_get_stream url (STREAM_TIMEOUT_MS cfg) w of
                (Inl e, w1) \<Rightarrow> (Inl e, w1)
              | (Inr streamResponse, w1) \<Rightarrow>
                  (Parser_run from to (on_record filter') (rows streamResponse), w1)))"

text \<open>Lines 147 to 191: the two checks on the records, the payload, its caching, the reply.\<close>

definition assemble ::
  "config \<Rightarrow> string \<Rightarrow> int \<Rightarrow> number \<Rightarrow> csv_record list \<Rightarrow> world
     \<Rightarrow> (error + response) \<times> world" where
  "assemble cfg key limit totalNoOfLines records w =
     (case records of
        [] \<Rightarrow> (Inr (json_error cfg 404 ''No records found''), w)
      | first # _ \<Rightarrow>
          (let isMandatoryHeadersPresent =
                 list_all (\<lambda>header. header \<in> set (Object_keys first)) (MANDATORY_HEADERS cfg)
           in if \<not> isMandatoryHeadersPresent
              then (Inr (json_error cfg 400 ''Mandatory headers are missing''), w)
              else
                (let responseData =
                       \<lparr>results = records, pageCount = pageCount_of totalNoOfLines limit\<rparr>
                 in case redis_set key (Stringified responseData) (CACHE_EXPIRY_SECONDS cfg) w of
                      (Inl e, w1) \<Rightarrow> (Inl e, w1)
                    | (Inr _, w1) \<Rightarrow>
                        (Inr \<lparr>status = 200, headers = None, body = DataJson responseData\<rparr>, w1))))"

text \<open>Lines 88 to 191: everything after validation.\<close>

definition serve ::
  "config \<Rightarrow> string \<Rightarrow> string option \<Rightarrow> int \<Rightarrow> int \<Rightarrow> world \<Rightarrow> (error + response) \<times> world" where
  "serve cfg url filter' page limit w =
     (case redis_get (responseKey url page limit filter') w of
        (Inl e, w1) \<Rightarrow> (Inl e, w1)
      | (Inr (Some cacheResponse), w1) \<Rightarrow>
          (Inr \<lparr>status = 200, headers = Some (DEFAULT_RESPONSE_HEADERS cfg),
                body = JSON_parse cacheResponse\<rparr>, w1)
      | (Inr None, w1) \<Rightarrow>
          (case resolve_total cfg url w1 of
             (Inl e, w2) \<Rightarrow> (Inl e, w2)
           | (Inr totalNoOfLines, w2) \<Rightarrow>
               (case fetch_records cfg url filter' page limit w2 of
                  (Inl e, w3) \<Rightarrow> (Inl e, w3)
                | (Inr records, w3) \<Rightarrow>
                    assemble cfg (responseKey url page limit filter') limit totalNoOfLines
                      records w3)))"

text \<open>The defaults of the destructuring in line 14: \<^verbatim>\<open>page = 1\<close>, \<^verbatim>\<open>limit = 10\<close>.\<close>

definition page_of :: "request \<Rightarrow> int" where
  "page_of req = (case req_page req of None \<Rightarrow> 1 | Some p \<Rightarrow> p)"

definition limit_of :: "request \<Rightarrow> int" where
  "limit_of req = (case req_limit req of None \<Rightarrow> 10 | Some l \<Rightarrow> l)"

text \<open>The body of the \<^verbatim>\<open>try\<close> block: the checks of lines 25 to 86, then the rest.\<close>

definition POST_try :: "config \<Rightarrow> request \<Rightarrow> world \<Rightarrow> (error + response) \<times> world" where
  "POST_try cfg req w =
     (let filter' = req_filter req;
          page = page_of req;
          limit = limit_of req
      in case req_url req of
           None \<Rightarrow> (Inr (json_error cfg 400 ''url is required''), w)
         | Some url \<Rightarrow>
             if url = [] then (Inr (json_error cfg 400 ''url is required''), w)
             else if \<not> endsWith url ''.csv''
               then (Inr (json_error cfg 400 ''url should be a link to csv file''), w)
             else if limit = 0 \<or> limit < 0
               then (Inr (json_error cfg 400 ''limit is required and should be greater than 0''), w)
             else if limit = 0 \<or> above_last limit (DEFAULT_PAGE_SIZES cfg)
               then (Inr (json_error cfg 400 ''limit is required and should be greater than 0''), w)
             else if page < 1
               then (Inr (json_error cfg 400 ''page is required and should be greater than 0''), w)
             else serve cfg url filter' page limit w)"

text \<open>
  The handler: the client is created, the \<^verbatim>\<open>try\<close> block runs, a throw becomes the 500
  reply of the \<^verbatim>\<open>catch\<close> block, and the \<^verbatim>\<open>finally\<close> block disconnects.
\<close>

definition catch :: "config \<Rightarrow> error \<Rightarrow> response" where
  "catch cfg e =
     (case e of Error message \<Rightarrow>
        json_error cfg 500 (if message = [] then ''Internal server error'' else message))"

definition POST :: "config \<Rightarrow> request \<Rightarrow> world \<Rightarrow> response \<times> world" where
  "POST cfg req w =
     (let w0 = w\<lparr>trace := trace w @ [Connect]\<rparr>;
          (r, w1) = POST_try cfg req w0;
          resp = (case r of Inr resp \<Rightarrow> resp | Inl e \<Rightarrow> catch cfg e)
      in (resp, w1\<lparr>trace := trace w1 @ [Disconnect]\<rparr>))"

subsection \<open>The validation rules as the specification words them\<close>

text \<open>
  The specification lists four rules, checked in this order, the first failure deciding
  the reply: the url is present and non-empty; the url ends with \<^verbatim>\<open>.csv\<close>; the limit is
  above 0 and not above the largest allowed page size; the page is at least 1. The largest
  allowed page size is the last entry of \<^verbatim>\<open>DEFAULT_PAGE_SIZES\<close>.
\<close>

datatype rule = UrlPresent | UrlSuffix | LimitRange | PageRange

definition url_missing :: "request \<Rightarrow> bool" where
  "url_missing req = (req_url req = None \<or> req_url req = Some [])"

definition url_not_csv :: "request \<Rightarrow> bool" where
  "url_not_csv req = (case req_url req of None \<Rightarrow> False | Some u \<Rightarrow> \<not> suffix ''.csv'' u)"

definition limit_out_of_range :: "config \<Rightarrow> request \<Rightarrow> bool" where
  "limit_out_of_range cfg req =
     (limit_of req \<le> 0 \<or>
      (DEFAULT_PAGE_SIZES cfg \<noteq> [] \<and> last (DEFAULT_PAGE_SIZES cfg) < limit_of req))"

definition page_out_of_range :: "request \<Rightarrow> bool" where
  "page_out_of_range req = (page_of req < 1)"

definition first_violated :: "config \<Rightarrow> request \<Rightarrow> rule option" where
  "first_violated cfg req =
     (if url_missing req then Some UrlPresent
      else if url_not_csv req then Some UrlSuffix
      else if limit_out_of_range cfg req then Some LimitRange
      else if page_out_of_range req then Some PageRange
      else None)"

fun message :: "rule \<Rightarrow> string" where
  "message UrlPresent = ''url is required''"
| "message UrlSuffix = ''url should be a link to csv file''"
| "message LimitRange = ''limit is required and should be greater than 0''"
| "message PageRange = ''page is required and should be greater than 0''"

subsection \<open>Records by number\<close>

text \<open>
  The records of a streamed resource that carry the numbers \<open>from\<close> to \<open>to\<close>, both
  inclusive, the first data row being record 1: what lies in the window the route hands
  to the parser.
\<close>

fun the_fields :: "lexed \<Rightarrow> string list" where
  "the_fields (Fields fs) = fs"
| "the_fields (Invalid msg) = []"

definition numbered :: "int \<Rightarrow> int \<Rightarrow> lexed list \<Rightarrow> csv_record list" where
  "numbered from to stream =
     (case stream of
        [] \<Rightarrow> []
      | header # rest \<Rightarrow>
          map (\<lambda>row. to_object (the_fields header) (the_fields row))
            (drop (nat (from - 1)) (take (nat to) rest)))"

text \<open>A record has a field whose lower-case form contains the lower-case filter text.\<close>

definition matches :: "string \<Rightarrow> csv_record \<Rightarrow> bool" where
  "matches f record =
     list_ex (\<lambda>value. includes_str (toLowerCase value) (toLowerCase f)) (Object_values record)"

subsection \<open>A fixture\<close>

text \<open>
  A resource with the header \<^verbatim>\<open>id,name,email\<close> and 25 data rows, sample values for the
  imported constants, and a world with an empty store in which only that resource exists.
\<close>

definition fixture_config :: config where
  "fixture_config =
     \<lparr>CACHE_EXPIRY_SECONDS = 60,
      DEFAULT_RESPONSE_HEADERS = [(''Content-Type'', ''application/json'')],
      MANDATORY_HEADERS = [''id'', ''name'', ''email''],
      STREAM_TIMEOUT_MS = 5000,
      DEFAULT_PAGE_SIZES = [10, 25, 50, 100]\<rparr>"

definition fixture_header :: "string list" where
  "fixture_header = [''id'', ''name'', ''email'']"

definition fixture_row :: "int \<Rightarrow> string list" where
  "fixture_row i = [toString i, ''n'' @ toString i, ''u'' @ toString i @ ''@x.io'']"

definition join :: "string list \<Rightarrow> string \<Rightarrow> string" where
  "join pieces sep = (case pieces of [] \<Rightarrow> [] | p # ps \<Rightarrow> p @ concat (map (\<lambda>q. sep @ q) ps))"

definition fixture_text :: string where
  "fixture_text =
     join (map (\<lambda>fs. join fs '','') (fixture_header # map fixture_row [1..25])) [CHR 0x0A]"

definition fixture_resource :: csv_resource where
  "fixture_resource =
     \<lparr>data = StringData fixture_text,
      rows = Fields fixture_header # map (\<lambda>i. Fields (fixture_row i)) [1..25]\<rparr>"

definition fixture_url :: string where
  "fixture_url = ''https://host/people.csv''"

definition fixture_world :: world where
  "fixture_world =
     \<lparr>store = (\<lambda>k. None),
      clock = 1000,
      redis_error = None,
      remote = (\<lambda>u. if u = fixture_url then Inr fixture_resource
                     else Inl (Error ''Request failed with status code 404'')),
      trace = []\<rparr>"

definition fixture_request :: "int \<Rightarrow> int \<Rightarrow> string option \<Rightarrow> request" where
  "fixture_request page limit filter' =
     \<lparr>req_url = Some fixture_url, req_filter = filter', req_page = Some page,
      req_limit = Some limit\<rparr>"

text \<open>The same world with a total of 31 cached for the resource.\<close>

definition fixture_world_total :: world where
  "fixture_world_total =
     fixture_world\<lparr>store := (store fixture_world)(totalKey fixture_url \<mapsto> (Decimal 31, 1060))\<rparr>"

text \<open>The records of a reply body (none when the body is not a page).\<close>

fun results_of :: "json \<Rightarrow> csv_record list" where
  "results_of (DataJson d) = results d"
| "results_of (ErrorJson msg) = []"
| "results_of (NumberJson n) = []"

text \<open>The sample constants with a default header besides the content type.\<close>

definition fixture_config_cors :: config where
  "fixture_config_cors =
     fixture_config\<lparr>DEFAULT_RESPONSE_HEADERS :=
       [(''Content-Type'', ''application/json''), (''Access-Control-Allow-Origin'', ''*'')]\<rparr>"

text \<open>A string of ASCII characters, on which the strings of the model are those of JavaScript.\<close>

definition ascii :: "string \<Rightarrow> bool" where
  "ascii s = list_all (\<lambda>c. (of_char c :: nat) < 128) s"

text \<open>The sample constants with a mandatory header that the resource does not have.\<close>

definition fixture_config_phone :: config where
  "fixture_config_phone = fixture_config\<lparr>MANDATORY_HEADERS := [''id'', ''phone'']\<rparr>"

section \<open>Properties\<close>

subsection \<open>Strings and arithmetic\<close>

lemma digits_range: "c \<in> set (digits n) \<Longrightarrow> 48 \<le> (of_char c :: nat) \<and> (of_char c :: nat) \<le> 57"
proof (induction n arbitrary: c rule: digits.induct)
  case (1 n)
  show ?case
  proof (cases "n < 10")
    case True
    with "1.prems" have "c = char_of (48 + n)" by (simp add: digits.simps [of n])
    with True show ?thesis by simp
  next
    case False
    with "1.prems" have "c \<in> set (digits (n div 10)) \<or> c = char_of (48 + n mod 10)"
      by (auto simp: digits.simps [of n])
    then show ?thesis
    proof
      assume "c \<in> set (digits (n div 10))"
      with False "1.IH" show ?thesis by simp
    next
      assume c: "c = char_of (48 + n mod 10)"
      have "n mod 10 < 10" by simp
      then have "(48 + n mod 10) mod 256 = 48 + n mod 10" by simp
      with c show ?thesis by simp
    qed
  qed
qed

lemma digits_nonempty: "digits n \<noteq> []"
  by (subst digits.simps) simp

lemma toString_nonempty: "toString n \<noteq> []"
  by (simp add: toString_def digits_nonempty)

lemma toString_hd: "hd (toString n) \<noteq> CHR ''t''"
proof (cases "n < 0")
  case True
  then show ?thesis by (simp add: toString_def)
next
  case False
  have "hd (digits (nat n)) \<in> set (digits (nat n))" using digits_nonempty by simp
  from digits_range [OF this] have "hd (digits (nat n)) \<noteq> CHR ''t''" by auto
  with False show ?thesis by (simp add: toString_def)
qed

lemma responseKey_neq_totalKey: "responseKey url page limit f \<noteq> totalKey url"
proof
  assume "responseKey url page limit f = totalKey url"
  then have "toString page @ ''-'' @ toString limit @ ''-'' @ (case f of None \<Rightarrow> ''undefined'' | Some f \<Rightarrow> f) = ''total''"
    by (simp add: responseKey_def totalKey_def)
  then have "hd (toString page @ ''-'' @ toString limit @ ''-'' @ (case f of None \<Rightarrow> ''undefined'' | Some f \<Rightarrow> f)) = CHR ''t''"
    by simp
  then have "hd (toString page) = CHR ''t''" using toString_nonempty [of page] by simp
  with toString_hd show False by blast
qed

lemma includes_str_iff: "includes_str s t \<longleftrightarrow> (\<exists>ps ss. s = ps @ t @ ss)"
proof (induction s)
  case Nil
  then show ?case by auto
next
  case (Cons c s)
  show ?case
  proof
    assume "includes_str (c # s) t"
    then consider "prefix t (c # s)" | "includes_str s t" by auto
    then show "\<exists>ps ss. c # s = ps @ t @ ss"
    proof cases
      case 1
      then obtain ss where "c # s = t @ ss" by (auto simp: prefix_def)
      then have "c # s = [] @ t @ ss" by simp
      then show ?thesis by blast
    next
      case 2
      with Cons.IH obtain ps ss where "s = ps @ t @ ss" by blast
      then have "c # s = (c # ps) @ t @ ss" by simp
      then show ?thesis by blast
    qed
  next
    assume "\<exists>ps ss. c # s = ps @ t @ ss"
    then obtain ps ss where eq: "c # s = ps @ t @ ss" by blast
    show "includes_str (c # s) t"
    proof (cases ps)
      case Nil
      with eq have "prefix t (c # s)" by (simp add: prefix_def)
      then show ?thesis by simp
    next
      case (Cons p ps')
      with eq have "s = ps' @ t @ ss" by simp
      with Cons.IH have "includes_str s t" by blast
      then show ?thesis by simp
    qed
  qed
qed

lemma includes_str_empty: "includes_str s []"
  by (cases s) simp_all

lemma findIndex_ge: "- 1 \<le> findIndex p xs"
  by (induction xs) (auto simp: Let_def)

lemma findIndex_iff: "findIndex p xs > - 1 \<longleftrightarrow> (\<exists>x \<in> set xs. p x)"
proof -
  have "findIndex p xs = - 1 \<longleftrightarrow> \<not> (\<exists>x \<in> set xs. p x)"
  proof (induction xs)
    case Nil
    then show ?case by simp
  next
    case (Cons x xs)
    with findIndex_ge [of p xs] show ?case by (auto simp: Let_def)
  qed
  with findIndex_ge [of p xs] show ?thesis by linarith
qed

lemma split_length: "length (split s sep) = Suc (count_list s sep)"
  by (induction s) (auto split: list.splits)



subsection \<open>The parser\<close>

text \<open>
  When the parser succeeds, it has delivered the records numbered \<open>from\<close> to \<open>to\<close>
  that the callback keeps, in the order of the stream, and every row up to the record
  numbered \<open>to\<close> has as many fields as the header.
\<close>

lemma records_loop_numbered:
  assumes "records_loop columns from to on_rec n rest = Inr rs" "n < to" "0 \<le> n"
  shows "rs = List.map_filter on_rec
           (map (\<lambda>row. to_object columns (the_fields row))
              (drop (nat (from - n - 1)) (take (nat (to - n)) rest)))"
  using assms
proof (induction rest arbitrary: n rs)
  case Nil
  then show ?case by (simp add: List.map_filter_simps)
next
  case (Cons row rest)
  show ?case
  proof (cases row)
    case (Invalid msg)
    with Cons.prems show ?thesis by simp
  next
    case (Fields fs)
    define out where "out = (if from \<le> n + 1
                    then (case on_rec (to_object columns fs) of
                            None \<Rightarrow> [] | Some r \<Rightarrow> [r])
                    else [])"
    from Cons.prems Fields have len: "length fs = length columns"
      by (auto split: if_splits)
    have tk: "take (nat (to - n)) (row # rest) = row # take (nat (to - n - 1)) rest"
      using Cons.prems(2) by (simp add: take_Cons' nat_diff_distrib)
    show ?thesis
    proof (cases "to \<le> n + 1")
      case True
      with Cons.prems Fields len have rs: "rs = out" by (simp add: out_def Let_def)
      from True Cons.prems(2) have "nat (to - n - 1) = 0" by simp
      with tk have "take (nat (to - n)) (row # rest) = [row]" by simp
      then show ?thesis using rs Fields
        by (auto simp: out_def List.map_filter_simps drop_Cons' split: option.splits)
    next
      case False
      with Cons.prems Fields len obtain rs' where
        rec: "records_loop columns from to on_rec (n + 1) rest = Inr rs'" and rs: "rs = out @ rs'"
        by (auto simp: out_def Let_def split: sum.splits)
      from False Cons.prems have "n + 1 < to" "0 \<le> n + 1" by simp_all
      from Cons.IH [OF rec this] have rs': "rs' = List.map_filter on_rec
           (map (\<lambda>row. to_object columns (the_fields row))
              (drop (nat (from - (n + 1) - 1)) (take (nat (to - (n + 1))) rest)))" .
      have eq1: "to - (n + 1) = to - n - 1" by simp
      show ?thesis
      proof (cases "from \<le> n + 1")
        case True
        then have "nat (from - n - 1) = 0" "nat (from - (n + 1) - 1) = 0" by simp_all
        with rs rs' tk Fields True show ?thesis
          by (auto simp: out_def eq1 List.map_filter_simps split: option.splits)
      next
        case f: False
        then have "nat (from - n - 1) = Suc (nat (from - (n + 1) - 1))" by simp
        with rs rs' tk Fields f show ?thesis
          by (simp add: out_def eq1)
      qed
    qed
  qed
qed

lemma Parser_run_numbered:
  assumes "Parser_run from to on_rec stream = Inr rs" "0 < to"
  shows "rs = List.map_filter on_rec (numbered from to stream)"
proof (cases stream)
  case Nil
  with assms show ?thesis by (simp add: Parser_run_def numbered_def List.map_filter_simps)
next
  case (Cons header rest)
  show ?thesis
  proof (cases header)
    case (Invalid msg)
    with Cons assms show ?thesis by (simp add: Parser_run_def)
  next
    case (Fields columns)
    with Cons assms have "records_loop columns from to on_rec 0 rest = Inr rs"
      by (simp add: Parser_run_def)
    from records_loop_numbered [OF this] assms(2) Cons Fields show ?thesis
      by (simp add: numbered_def)
  qed
qed

lemma records_loop_lengths:
  assumes "records_loop columns from to on_rec n rest = Inr rs" "n < to" "0 \<le> n"
  shows "\<forall>row \<in> set (take (nat (to - n)) rest). length (the_fields row) = length columns"
  using assms
proof (induction rest arbitrary: n rs)
  case Nil
  then show ?case by simp
next
  case (Cons row rest)
  show ?case
  proof (cases row)
    case (Invalid msg)
    with Cons.prems show ?thesis by simp
  next
    case (Fields fs)
    from Cons.prems Fields have len: "length fs = length columns"
      by (auto split: if_splits)
    have tk: "take (nat (to - n)) (row # rest) = row # take (nat (to - n - 1)) rest"
      using Cons.prems(2) by (simp add: take_Cons' nat_diff_distrib)
    show ?thesis
    proof (cases "to \<le> n + 1")
      case True
      with Cons.prems(2) have "nat (to - n - 1) = 0" by simp
      with tk len Fields show ?thesis by simp
    next
      case False
      with Cons.prems Fields len obtain rs' where
        rec: "records_loop columns from to on_rec (n + 1) rest = Inr rs'"
        by (auto simp: Let_def split: sum.splits)
      from False Cons.prems have "n + 1 < to" "0 \<le> n + 1" by simp_all
      from Cons.IH [OF rec this] have
        "\<forall>row \<in> set (take (nat (to - (n + 1))) rest). length (the_fields row) = length columns" .
      moreover have "to - (n + 1) = to - n - 1" by simp
      ultimately show ?thesis using tk len Fields by simp
    qed
  qed
qed

lemma fold_update_nonempty:
  "acc \<noteq> [] \<Longrightarrow> fold (\<lambda>(k, v) obj. AList.update k v obj) kvs acc \<noteq> []"
proof (induction kvs arbitrary: acc)
  case Nil
  then show ?case by simp
next
  case (Cons kv kvs)
  obtain k v where kv: "kv = (k, v)" by (cases kv)
  have "AList.update k v acc \<noteq> []" by (cases acc) auto
  from Cons.IH [OF this] kv show ?case by simp
qed

lemma to_object_nonempty:
  assumes "columns \<noteq> []" "length fs = length columns"
  shows "to_object columns fs \<noteq> []"
proof -
  from assms obtain c cs f fs' where "columns = c # cs" "fs = f # fs'"
    by (cases columns; cases fs) auto
  then have "to_object columns fs =
      fold (\<lambda>(k, v) obj. AList.update k v obj) (zip cs fs') [(c, f)]"
    by (simp add: to_object_def)
  with fold_update_nonempty [of "[(c, f)]"] show ?thesis by simp
qed

lemma numbered_nonempty:
  assumes "Parser_run from to on_rec stream = Inr rs" "0 < to" "Fields [] \<notin> set stream"
  shows "\<forall>r \<in> set (numbered from to stream). r \<noteq> []"
proof (cases stream)
  case Nil
  then show ?thesis by (simp add: numbered_def)
next
  case (Cons header rest)
  show ?thesis
  proof (cases header)
    case (Invalid msg)
    with Cons assms show ?thesis by (simp add: Parser_run_def)
  next
    case (Fields columns)
    with Cons assms(3) have ne: "columns \<noteq> []" by auto
    from Fields Cons assms have "records_loop columns from to on_rec 0 rest = Inr rs"
      by (simp add: Parser_run_def)
    from records_loop_lengths [OF this] assms(2)
    have "\<forall>row \<in> set (take (nat to) rest). length (the_fields row) = length columns" by simp
    then have "\<forall>row \<in> set (drop (nat (from - 1)) (take (nat to) rest)).
        length (the_fields row) = length columns"
      by (meson in_set_dropD)
    with ne Cons Fields show ?thesis
      by (auto simp: numbered_def to_object_nonempty)
  qed
qed

lemma matches_iff:
  "matches f record \<longleftrightarrow> (\<exists>v \<in> set (Object_values record). includes_str (toLowerCase v) (toLowerCase f))"
  by (simp add: matches_def list_ex_iff)

lemma matches_empty: "matches [] r \<longleftrightarrow> r \<noteq> []"
  by (cases r) (auto simp: matches_def Object_values_def toLowerCase_def includes_str_empty)

lemma on_record_filter:
  assumes "f \<noteq> []"
  shows "List.map_filter (on_record (Some f)) xs = filter (matches f) xs"
  by (induction xs) (use assms in \<open>auto simp: List.map_filter_simps on_record_def matches_iff findIndex_iff Let_def\<close>)

lemma on_record_none: "List.map_filter (on_record None) xs = xs"
  by (induction xs) (auto simp: List.map_filter_simps on_record_def)

lemma on_record_filter_any:
  assumes "f \<noteq> [] \<or> (\<forall>r \<in> set xs. r \<noteq> [])"
  shows "List.map_filter (on_record (Some f)) xs = filter (matches f) xs"
proof (cases "f = []")
  case False
  then show ?thesis by (rule on_record_filter)
next
  case True
  with assms have "\<forall>r \<in> set xs. matches f r" by (simp add: matches_empty)
  then have "filter (matches f) xs = xs" by simp
  moreover have "List.map_filter (on_record (Some [])) xs = xs"
    by (induction xs) (simp_all add: List.map_filter_simps on_record_def)
  ultimately show ?thesis using True by simp
qed

subsection \<open>The stages of the handler\<close>

lemma live_trace [simp]: "live (w\<lparr>trace := t\<rparr>) k = live w k"
  by (simp add: live_def split: option.splits prod.splits)

lemma POST_try_invalid:
  assumes "first_violated cfg req = Some r"
  shows "POST_try cfg req w = (Inr (json_error cfg 400 (message r)), w)"
  using assms
  by (auto simp: first_violated_def POST_try_def url_missing_def url_not_csv_def
      limit_out_of_range_def page_out_of_range_def endsWith_def above_last_def Let_def
      split: if_splits option.splits list.splits)

lemma POST_try_valid:
  assumes "first_violated cfg req = None"
  shows "\<exists>u. req_url req = Some u \<and>
    POST_try cfg req w = serve cfg u (req_filter req) (page_of req) (limit_of req) w"
  using assms
  by (auto simp: first_violated_def POST_try_def url_missing_def url_not_csv_def
      limit_out_of_range_def page_out_of_range_def endsWith_def above_last_def Let_def
      split: if_splits option.splits list.splits)

lemma valid_bounds:
  assumes "first_violated cfg req = None"
  shows "1 \<le> limit_of req \<and> 1 \<le> page_of req"
  using assms
  by (auto simp: first_violated_def limit_out_of_range_def page_out_of_range_def split: if_splits)

lemma serve_hit:
  assumes "redis_error w = None" "live w (responseKey u p l f) = Some v"
  shows "serve cfg u f p l w =
    (Inr \<lparr>status = 200, headers = Some (DEFAULT_RESPONSE_HEADERS cfg), body = JSON_parse v\<rparr>,
     w\<lparr>trace := trace w @ [RedisGet (responseKey u p l f)]\<rparr>)"
  using assms by (simp add: serve_def redis_get_def)

lemma serve_miss:
  assumes "redis_error w = None" "live w (responseKey u p l f) = None"
    and "resolve_total cfg u (w\<lparr>trace := trace w @ [RedisGet (responseKey u p l f)]\<rparr>) = (Inr t, w2)"
    and "fetch_records cfg u f p l w2 = (r, w3)"
  shows "serve cfg u f p l w =
    (case r of Inl e \<Rightarrow> (Inl e, w3)
     | Inr records \<Rightarrow> assemble cfg (responseKey u p l f) l t records w3)"
  using assms by (simp add: serve_def redis_get_def split: sum.splits)

lemma resolve_total_hit:
  assumes "redis_error w = None" "live w (totalKey u) = Some v"
  shows "resolve_total cfg u w = (Inr (parseInt v), w\<lparr>trace := trace w @ [RedisGet (totalKey u)]\<rparr>)"
  using assms by (simp add: resolve_total_def redis_get_def)

lemma resolve_total_miss:
  assumes "redis_error w = None" "live w (totalKey u) = None" "remote w u = Inr res"
    and "data res = StringData s" "0 < CACHE_EXPIRY_SECONDS cfg"
  shows "resolve_total cfg u w =
    (Inr (Num (int (length (split s CHR 0x0A)) - 1)),
     w\<lparr>trace := trace w @ [RedisGet (totalKey u), AxiosGet u,
          RedisSet (totalKey u) (Decimal (int (length (split s CHR 0x0A)) - 1)) (CACHE_EXPIRY_SECONDS cfg)],
       store := (store w)(totalKey u \<mapsto> (Decimal (int (length (split s CHR 0x0A)) - 1), clock w + CACHE_EXPIRY_SECONDS cfg))\<rparr>)"
  using assms by (simp add: resolve_total_def redis_get_def redis_set_def Axios_get_def Let_def)

lemma resolve_total_ok:
  assumes "redis_error w = None" "remote w u = Inr res"
    and "live w (totalKey u) \<noteq> None \<or>
      ((\<exists>s. data res = StringData s) \<and> 0 < CACHE_EXPIRY_SECONDS cfg)"
  shows "\<exists>t w2. resolve_total cfg u w = (Inr t, w2)
    \<and> redis_error w2 = None \<and> remote w2 = remote w \<and> clock w2 = clock w"
proof (cases "live w (totalKey u)")
  case None
  with assms(3) obtain s where "data res = StringData s" "0 < CACHE_EXPIRY_SECONDS cfg" by blast
  from resolve_total_miss [OF assms(1) None assms(2) this] assms show ?thesis by simp
next
  case (Some v)
  from resolve_total_hit [OF assms(1) Some] assms show ?thesis by simp
qed

lemma window_ok:
  assumes "1 \<le> (p::int)" "1 \<le> l"
  shows "Parser_options ((p - 1) * l) ((p - 1) * l + l) = None"
proof -
  from assms have nn: "0 \<le> (p - 1) * l" by (intro mult_nonneg_nonneg) simp_all
  then have a: "\<not> (p - 1) * l < 0" by linarith
  from nn assms have b: "\<not> (p - 1) * l + l \<le> 0" by linarith
  show ?thesis by (simp add: Parser_options_def a b)
qed

lemma fetch_records_ok:
  assumes "remote w u = Inr res" "1 \<le> p" "1 \<le> l"
  shows "fetch_records cfg u f p l w =
    (Parser_run ((p - 1) * l) ((p - 1) * l + l) (on_record f) (rows res),
     w\<lparr>trace := trace w @ [AxiosGetStream u (STREAM_TIMEOUT_MS cfg)]\<rparr>)"
  using assms(1) window_ok [OF assms(2,3)]
  by (simp add: fetch_records_def Axios_get_stream_def Let_def)

lemma fetch_records_frame:
  assumes "fetch_records cfg u f p l w = (r, w')"
  shows "store w' = store w \<and> clock w' = clock w \<and> redis_error w' = redis_error w \<and> remote w' = remote w
    \<and> (\<exists>evs. trace w' = trace w @ evs \<and> Connect \<notin> set evs \<and> Disconnect \<notin> set evs)"
  using assms
  by (auto simp: fetch_records_def Axios_get_stream_def Let_def split: option.splits sum.splits)

lemma resolve_total_frame:
  assumes "resolve_total cfg u w = (r, w')"
  shows "(\<forall>k. k \<noteq> totalKey u \<longrightarrow> store w' k = store w k) \<and> clock w' = clock w \<and> redis_error w' = redis_error w \<and> remote w' = remote w
    \<and> (\<exists>evs. trace w' = trace w @ evs \<and> Connect \<notin> set evs \<and> Disconnect \<notin> set evs)"
  using assms
  by (auto simp: resolve_total_def redis_get_def redis_set_def Axios_get_def Let_def
      split: option.splits sum.splits axios_data.splits if_splits)

lemma assemble_frame:
  assumes "assemble cfg key l t rs w = (r, w')"
  shows "(\<forall>k. k \<noteq> key \<longrightarrow> store w' k = store w k) \<and> clock w' = clock w \<and> redis_error w' = redis_error w \<and> remote w' = remote w
    \<and> (\<exists>evs. trace w' = trace w @ evs \<and> Connect \<notin> set evs \<and> Disconnect \<notin> set evs)"
  using assms
  by (auto simp: assemble_def redis_set_def Let_def split: option.splits sum.splits list.splits if_splits)

lemma serve_trace:
  assumes "serve cfg u f p l w = (r, w')"
  shows "\<exists>evs. trace w' = trace w @ evs \<and> Connect \<notin> set evs \<and> Disconnect \<notin> set evs"
proof -
  obtain r0 w0 where g: "redis_get (responseKey u p l f) w = (r0, w0)" by fastforce
  then have t0: "trace w0 = trace w @ [RedisGet (responseKey u p l f)]"
    by (auto simp: redis_get_def Let_def split: option.splits)
  show ?thesis
  proof (cases r0)
    case (Inl e)
    with g assms have "w' = w0" by (simp add: serve_def)
    with t0 show ?thesis by simp
  next
    case (Inr c)
    show ?thesis
    proof (cases c)
      case (Some v)
      with Inr g assms have "w' = w0" by (simp add: serve_def)
      with t0 show ?thesis by simp
    next
      case None
      obtain r1 w1 where rt: "resolve_total cfg u w0 = (r1, w1)" by fastforce
      from resolve_total_frame [OF rt] obtain e1 where
        t1: "trace w1 = trace w0 @ e1" "Connect \<notin> set e1" "Disconnect \<notin> set e1" by blast
      show ?thesis
      proof (cases r1)
        case (Inl e)
        with None Inr g rt assms have "w' = w1" by (simp add: serve_def)
        with t0 t1 show ?thesis by simp
      next
        case total: (Inr t)
        obtain r2 w2 where fr: "fetch_records cfg u f p l w1 = (r2, w2)" by fastforce
        from fetch_records_frame [OF fr] obtain e2 where
          t2: "trace w2 = trace w1 @ e2" "Connect \<notin> set e2" "Disconnect \<notin> set e2" by blast
        show ?thesis
        proof (cases r2)
          case (Inl e)
          with total None Inr g rt fr assms have "w' = w2" by (simp add: serve_def)
          with t0 t1 t2 show ?thesis by simp
        next
          case recs: (Inr rs)
          with total None Inr g rt fr assms
          have "assemble cfg (responseKey u p l f) l t rs w2 = (r, w')" by (simp add: serve_def)
          from assemble_frame [OF this] obtain e3 where
            "trace w' = trace w2 @ e3" "Connect \<notin> set e3" "Disconnect \<notin> set e3" by blast
          with t0 t1 t2 show ?thesis by simp
        qed
      qed
    qed
  qed
qed

lemma POST_try_trace:
  assumes "POST_try cfg req w = (r, w')"
  shows "\<exists>evs. trace w' = trace w @ evs \<and> Connect \<notin> set evs \<and> Disconnect \<notin> set evs"
proof (cases "first_violated cfg req")
  case None
  from POST_try_valid [OF None, of w] assms serve_trace show ?thesis by metis
next
  case (Some r)
  from POST_try_invalid [OF Some, of w] assms show ?thesis by simp
qed

lemma POST_hit:
  assumes "first_violated cfg req = None" "req_url req = Some u" "redis_error w = None"
    "live w (responseKey u (page_of req) (limit_of req) (req_filter req)) = Some v"
  shows "POST cfg req w =
    (\<lparr>status = 200, headers = Some (DEFAULT_RESPONSE_HEADERS cfg), body = JSON_parse v\<rparr>,
     w\<lparr>trace := trace w @ [Connect, RedisGet (responseKey u (page_of req) (limit_of req) (req_filter req)), Disconnect]\<rparr>)"
proof -
  let ?w0 = "w\<lparr>trace := trace w @ [Connect]\<rparr>"
  from POST_try_valid [OF assms(1), of ?w0] assms(2)
  have "POST_try cfg req ?w0 = serve cfg u (req_filter req) (page_of req) (limit_of req) ?w0"
    by auto
  also have "\<dots> = (Inr \<lparr>status = 200, headers = Some (DEFAULT_RESPONSE_HEADERS cfg), body = JSON_parse v\<rparr>,
     ?w0\<lparr>trace := trace ?w0 @ [RedisGet (responseKey u (page_of req) (limit_of req) (req_filter req))]\<rparr>)"
    using assms(3,4) by (intro serve_hit) simp_all
  finally show ?thesis by (simp add: POST_def)
qed

text \<open>
  What a reply with status 200 tells: the request passed validation and Redis answered;
  the reply either replays the live entry under the page key, or follows a computation
  that stored its payload under that key for \<^verbatim>\<open>CACHE_EXPIRY_SECONDS\<close>.
\<close>

lemma POST_200:
  assumes "POST cfg req w = (resp, w')" "status resp = 200"
  shows "first_violated cfg req = None \<and>
    (\<exists>u w1. req_url req = Some u \<and>
       serve cfg u (req_filter req) (page_of req) (limit_of req) (w\<lparr>trace := trace w @ [Connect]\<rparr>)
         = (Inr resp, w1) \<and>
       w' = w1\<lparr>trace := trace w1 @ [Disconnect]\<rparr>)"
proof -
  obtain r w1 where t: "POST_try cfg req (w\<lparr>trace := trace w @ [Connect]\<rparr>) = (r, w1)"
    by fastforce
  with assms(1) have resp: "resp = (case r of Inr resp \<Rightarrow> resp | Inl e \<Rightarrow> catch cfg e)"
    and w': "w' = w1\<lparr>trace := trace w1 @ [Disconnect]\<rparr>"
    by (simp_all add: POST_def Let_def)
  have r: "r = Inr resp"
  proof (cases r)
    case (Inl e)
    with resp assms(2) show ?thesis
      by (cases e) (simp add: catch_def json_error_def)
  next
    case (Inr x)
    with resp show ?thesis by simp
  qed
  have v: "first_violated cfg req = None"
  proof (cases "first_violated cfg req")
    case None
    then show ?thesis .
  next
    case (Some rl)
    from POST_try_invalid [OF Some, of "w\<lparr>trace := trace w @ [Connect]\<rparr>"] t r assms(2)
    show ?thesis by (simp add: json_error_def)
  qed
  from POST_try_valid [OF v, of "w\<lparr>trace := trace w @ [Connect]\<rparr>"] obtain u where
    "req_url req = Some u"
    "POST_try cfg req (w\<lparr>trace := trace w @ [Connect]\<rparr>) =
       serve cfg u (req_filter req) (page_of req) (limit_of req) (w\<lparr>trace := trace w @ [Connect]\<rparr>)"
    by blast
  with t r have "req_url req = Some u \<and>
       serve cfg u (req_filter req) (page_of req) (limit_of req) (w\<lparr>trace := trace w @ [Connect]\<rparr>)
         = (Inr resp, w1)" by simp
  with w' v show ?thesis by blast
qed

lemma serve_200:
  assumes "serve cfg u f p l w = (Inr resp, w')" "status resp = 200"
  shows "redis_error w = None \<and> redis_error w' = None \<and> clock w' = clock w \<and>
    (case live w (responseKey u p l f) of
       Some v \<Rightarrow>
         resp = \<lparr>status = 200, headers = Some (DEFAULT_RESPONSE_HEADERS cfg), body = JSON_parse v\<rparr> \<and>
         store w' = store w
     | None \<Rightarrow>
         (\<exists>t w2 rs w3.
            resolve_total cfg u (w\<lparr>trace := trace w @ [RedisGet (responseKey u p l f)]\<rparr>) = (Inr t, w2) \<and>
            fetch_records cfg u f p l w2 = (Inr rs, w3) \<and> rs \<noteq> [] \<and>
            list_all (\<lambda>header. header \<in> set (Object_keys (hd rs))) (MANDATORY_HEADERS cfg) \<and>
            resp = \<lparr>status = 200, headers = None,
                     body = DataJson \<lparr>results = rs, pageCount = pageCount_of t l\<rparr>\<rparr> \<and>
            store w' (responseKey u p l f) =
              Some (Stringified \<lparr>results = rs, pageCount = pageCount_of t l\<rparr>,
                    clock w + CACHE_EXPIRY_SECONDS cfg)))"
proof -
  let ?key = "responseKey u p l f"
  let ?w0 = "w\<lparr>trace := trace w @ [RedisGet ?key]\<rparr>"
  from assms(1) have up: "redis_error w = None"
    by (auto simp: serve_def redis_get_def Let_def split: option.splits)
  then have g: "redis_get ?key w = (Inr (live w ?key), ?w0)"
    by (simp add: redis_get_def)
  show ?thesis
  proof (cases "live w ?key")
    case (Some v)
    with g assms(1) up show ?thesis by (auto simp: serve_def)
  next
    case None
    obtain r1 w2 where rt: "resolve_total cfg u ?w0 = (r1, w2)" by fastforce
    from resolve_total_frame [OF rt] have f2: "clock w2 = clock w" "redis_error w2 = None"
      using up by simp_all
    from None g rt assms(1) obtain t where r1: "r1 = Inr t"
      by (cases r1) (auto simp: serve_def)
    obtain r2 w3 where fr: "fetch_records cfg u f p l w2 = (r2, w3)" by fastforce
    from fetch_records_frame [OF fr] f2 have f3: "clock w3 = clock w" "redis_error w3 = None"
      by simp_all
    from None g rt r1 fr assms(1) obtain rs where r2: "r2 = Inr rs"
      by (cases r2) (auto simp: serve_def)
    from None g rt r1 fr r2 assms(1)
    have a: "assemble cfg ?key l t rs w3 = (Inr resp, w')" by (simp add: serve_def)
    from a assms(2) obtain x xs where rs: "rs = x # xs"
      by (cases rs) (auto simp: assemble_def json_error_def)
    from a assms(2) rs have mh: "list_all (\<lambda>header. header \<in> set (Object_keys x)) (MANDATORY_HEADERS cfg)"
      by (auto simp: assemble_def json_error_def Let_def split: if_splits)
    from a rs mh f3 have
      "resp = \<lparr>status = 200, headers = None,
                body = DataJson \<lparr>results = rs, pageCount = pageCount_of t l\<rparr>\<rparr>"
      "store w' ?key = Some (Stringified \<lparr>results = rs, pageCount = pageCount_of t l\<rparr>,
                    clock w + CACHE_EXPIRY_SECONDS cfg)"
      "redis_error w' = None" "clock w' = clock w"
      by (auto simp: assemble_def Let_def redis_set_def split: if_splits)
    with None up rt r1 fr r2 rs mh show ?thesis by auto
  qed
qed

lemma POST_fresh_store:
  assumes "POST cfg req w = (resp, w')" "status resp = 200" "req_url req = Some u"
    and "live w (responseKey u (page_of req) (limit_of req) (req_filter req)) = None"
  shows "\<exists>d. resp = \<lparr>status = 200, headers = None, body = DataJson d\<rparr> \<and>
    store w' (responseKey u (page_of req) (limit_of req) (req_filter req))
      = Some (Stringified d, clock w + CACHE_EXPIRY_SECONDS cfg) \<and>
    redis_error w' = None \<and> clock w' = clock w"
proof -
  let ?w0 = "w\<lparr>trace := trace w @ [Connect]\<rparr>"
  from POST_200 [OF assms(1,2)] assms(3) obtain w1 where
    s: "serve cfg u (req_filter req) (page_of req) (limit_of req) ?w0 = (Inr resp, w1)" and
    w': "w' = w1\<lparr>trace := trace w1 @ [Disconnect]\<rparr>" by auto
  from serve_200 [OF s assms(2)] assms(4) w' show ?thesis by auto
qed

subsection \<open>The fixture, evaluated\<close>

lemma fixture_url_csv: "suffix ''.csv'' fixture_url \<and> fixture_url \<noteq> []"
  by (simp add: fixture_url_def suffix_to_prefix)

lemma fixture_request_simps [simp]:
  "req_url (fixture_request p l f) = Some fixture_url"
  "req_filter (fixture_request p l f) = f"
  "page_of (fixture_request p l f) = p"
  "limit_of (fixture_request p l f) = l"
  by (simp_all add: fixture_request_def page_of_def limit_of_def)


lemma fixture_valid_any:
  assumes "1 \<le> p" "1 \<le> l" "l \<le> 100" "DEFAULT_PAGE_SIZES cfg = [10, 25, 50, 100]"
  shows "first_violated cfg (fixture_request p l f) = None"
  using fixture_url_csv assms
  by (simp add: first_violated_def url_missing_def url_not_csv_def limit_out_of_range_def
      page_out_of_range_def)

lemma fixture_data [simp]: "data fixture_resource = StringData fixture_text"
  by (simp add: fixture_resource_def)

lemma fixture_seconds [simp]:
  "CACHE_EXPIRY_SECONDS fixture_config = 60" "CACHE_EXPIRY_SECONDS fixture_config_phone = 60"
  "CACHE_EXPIRY_SECONDS fixture_config_cors = 60"
  by (simp_all add: fixture_config_def fixture_config_phone_def fixture_config_cors_def)

lemma fixture_world_simps [simp]:
  "live fixture_world k = None" "clock fixture_world = 1000" "redis_error fixture_world = None"
  "remote fixture_world fixture_url = Inr fixture_resource" "trace fixture_world = []"
  by (simp_all add: fixture_world_def live_def)

lemma fixture_world_total_simps [simp]:
  "live fixture_world_total (totalKey fixture_url) = Some (Decimal 31)"
  "live fixture_world_total (responseKey fixture_url p l f) = None"
  using responseKey_neq_totalKey [of fixture_url p l f]
  by (simp_all add: fixture_world_total_def fixture_world_def live_def)

lemma fixture_page3:
  "fst (POST fixture_config (fixture_request 3 10 None) fixture_world) =
     \<lparr>status = 200, headers = None,
      body = DataJson
        \<lparr>results = map (\<lambda>i. to_object fixture_header (fixture_row i)) [20, 21, 22, 23, 24, 25],
         pageCount = Num 3\<rparr>\<rparr>"
  by code_simp

lemma fixture_page2_length:
  "length (results_of (body (fst (POST fixture_config (fixture_request 2 10 None) fixture_world)))) = 11"
  by code_simp

lemma fixture_window_page3:
  "Parser_run 20 30 (on_record None) (rows fixture_resource) =
     Inr (map (\<lambda>i. to_object fixture_header (fixture_row i)) [20, 21, 22, 23, 24, 25])"
  by code_simp

lemma fixture_window_page4:
  "Parser_run 30 40 (on_record None) (rows fixture_resource) = Inr []"
  by code_simp

lemma fixture_keys: "Object_keys (to_object fixture_header (fixture_row i)) = [''id'', ''name'', ''email'']"
  by (simp add: Object_keys_def to_object_def fixture_header_def fixture_row_def)

lemma fixture_replay:
  "fst (POST fixture_config (fixture_request 1 10 (Some ''undefined''))
       (snd (POST fixture_config (fixture_request 1 10 None) fixture_world))) =
     \<lparr>status = 200, headers = Some [(''Content-Type'', ''application/json'')],
      body = DataJson
        \<lparr>results = map (\<lambda>i. to_object fixture_header (fixture_row i)) [1, 2, 3, 4, 5, 6, 7, 8, 9, 10],
         pageCount = Num 3\<rparr>\<rparr>"
  by code_simp

lemma fixture_none_undefined:
  "\<not> list_ex (matches ''undefined'')
      (map (\<lambda>i. to_object fixture_header (fixture_row i)) [1, 2, 3, 4, 5, 6, 7, 8, 9, 10])"
  by code_simp

lemma fixture_cors_status:
  "status (fst (POST fixture_config_cors (fixture_request 3 10 None) fixture_world)) = 200"
  by code_simp

lemma fixture_ascii:
  "ascii ''N1'' \<and> list_all (\<lambda>row. list_all ascii (the_fields row)) (rows fixture_resource)"
  by code_simp

lemma fixture_filtered_status:
  "status (fst (POST fixture_config (fixture_request 1 10 (Some ''N1'')) fixture_world)) = 200"
  by code_simp

lemma fixture_filtered_window:
  "filter (matches ''N1'') (numbered 0 10 (rows fixture_resource)) =
     [to_object fixture_header (fixture_row 1), to_object fixture_header (fixture_row 10)]"
  by code_simp

section \<open>The claims\<close>

subsection \<open>C1: the window of a page\<close>

text \<open>
  C1. For a resource with N data rows, a limit L and a page P, the results are expected to
  be the data rows with 0-based index in [(P-1)L, PL), in file order and at most L of
  them; for 25 data rows, limit 10 and page 3, the rows 21 to 25. The route hands
  \<open>from = (P-1)L\<close> and \<open>to = PL\<close> to the parser unchanged (lines 115 to 123), and the
  parser numbers records from 1 with both ends inclusive. On the fixture the reply to page
  3 holds the six records 20 to 25, and the reply to page 2 holds eleven records, one more
  than the limit.
\<close>

theorem fixture_page_three_has_six_records:
  "results_of (body (fst (POST fixture_config (fixture_request 3 10 None) fixture_world))) =
     [to_object fixture_header (fixture_row 20), to_object fixture_header (fixture_row 21),
      to_object fixture_header (fixture_row 22), to_object fixture_header (fixture_row 23),
      to_object fixture_header (fixture_row 24), to_object fixture_header (fixture_row 25)]
   \<and> length (results_of (body (fst (POST fixture_config (fixture_request 3 10 None) fixture_world)))) = 6
   \<and> length (results_of (body (fst (POST fixture_config (fixture_request 2 10 None) fixture_world)))) = 11"
  using fixture_page2_length by (simp add: fixture_page3)

subsection \<open>C2: the same request again\<close>

text \<open>
  C2. When a request has been answered with status 200 and the same request is handled
  again at an instant before the entry under its page key expires, the second reply has
  the same payload (with status 200 and the default headers), and the second handling
  performs exactly one cache read of the page key between connecting and disconnecting:
  no fetch, no parse, no cache write. When the first reply was computed rather than
  replayed, the entry expires \<^verbatim>\<open>CACHE_EXPIRY_SECONDS\<close> after the first request.
\<close>

theorem repeated_request_served_from_cache:
  assumes "POST cfg req w = (resp, w')" "status resp = 200" "req_url req = Some u"
    and "clock w \<le> t"
    and "t < expiry w' (responseKey u (page_of req) (limit_of req) (req_filter req))"
  shows "POST cfg req (w'\<lparr>clock := t\<rparr>) =
      (\<lparr>status = 200, headers = Some (DEFAULT_RESPONSE_HEADERS cfg), body = body resp\<rparr>,
       w'\<lparr>clock := t,
          trace := trace w' @ [Connect,
            RedisGet (responseKey u (page_of req) (limit_of req) (req_filter req)), Disconnect]\<rparr>)
    \<and> (live w (responseKey u (page_of req) (limit_of req) (req_filter req)) = None \<longrightarrow>
         expiry w' (responseKey u (page_of req) (limit_of req) (req_filter req))
           = clock w + CACHE_EXPIRY_SECONDS cfg)"
proof -
  let ?key = "responseKey u (page_of req) (limit_of req) (req_filter req)"
  let ?w0 = "w\<lparr>trace := trace w @ [Connect]\<rparr>"
  from POST_200 [OF assms(1,2)] assms(3) obtain w1 where
    v: "first_violated cfg req = None" and
    s: "serve cfg u (req_filter req) (page_of req) (limit_of req) ?w0 = (Inr resp, w1)" and
    w': "w' = w1\<lparr>trace := trace w1 @ [Disconnect]\<rparr>" by auto
  from serve_200 [OF s assms(2)] have up: "redis_error w1 = None" and
    c: "case live w ?key of
       Some v \<Rightarrow> body resp = JSON_parse v \<and> store w1 = store w
     | None \<Rightarrow> (\<exists>d. body resp = DataJson d \<and>
          store w1 ?key = Some (Stringified d, clock w + CACHE_EXPIRY_SECONDS cfg))"
    by (auto split: option.splits)
  have "\<exists>v. live (w'\<lparr>clock := t\<rparr>) ?key = Some v \<and> JSON_parse v = body resp"
  proof (cases "live w ?key")
    case None
    with c obtain d where d: "body resp = DataJson d"
      "store w1 ?key = Some (Stringified d, clock w + CACHE_EXPIRY_SECONDS cfg)" by auto
    with assms(5) w' show ?thesis by (simp add: live_def expiry_def)
  next
    case (Some v)
    with c have "body resp = JSON_parse v" "store w1 = store w" by simp_all
    moreover from Some obtain e where "store w ?key = Some (v, e)"
      by (auto simp: live_def split: option.splits if_splits)
    ultimately show ?thesis using assms(5) w' by (simp add: live_def expiry_def)
  qed
  then obtain v' where v': "live (w'\<lparr>clock := t\<rparr>) ?key = Some v'" "JSON_parse v' = body resp"
    by blast
  from up w' have up': "redis_error (w'\<lparr>clock := t\<rparr>) = None" by simp
  from POST_hit [OF v assms(3) up' v'(1)] v'(2)
  have first: "POST cfg req (w'\<lparr>clock := t\<rparr>) =
      (\<lparr>status = 200, headers = Some (DEFAULT_RESPONSE_HEADERS cfg), body = body resp\<rparr>,
       w'\<lparr>clock := t, trace := trace w' @ [Connect, RedisGet ?key, Disconnect]\<rparr>)" by simp
  have "live w ?key = None \<longrightarrow> expiry w' ?key = clock w + CACHE_EXPIRY_SECONDS cfg"
    using c w' by (auto simp: expiry_def)
  with first show ?thesis by blast
qed

theorem repeated_request_served_from_cache_witness:
  "status (fst (POST fixture_config (fixture_request 3 10 None) fixture_world)) = 200 \<and>
   clock fixture_world \<le> 1030 \<and>
   1030 < expiry (snd (POST fixture_config (fixture_request 3 10 None) fixture_world))
            (responseKey fixture_url 3 10 None) \<and>
   POST fixture_config (fixture_request 3 10 None)
     ((snd (POST fixture_config (fixture_request 3 10 None) fixture_world))\<lparr>clock := 1030\<rparr>) =
     (\<lparr>status = 200, headers = Some (DEFAULT_RESPONSE_HEADERS fixture_config),
       body = body (fst (POST fixture_config (fixture_request 3 10 None) fixture_world))\<rparr>,
      (snd (POST fixture_config (fixture_request 3 10 None) fixture_world))
        \<lparr>clock := 1030,
         trace := trace (snd (POST fixture_config (fixture_request 3 10 None) fixture_world)) @
           [Connect, RedisGet (responseKey fixture_url 3 10 None), Disconnect]\<rparr>)"
proof -
  let ?P = "POST fixture_config (fixture_request 3 10 None) fixture_world"
  have p: "?P = (fst ?P, snd ?P)" by simp
  have s: "status (fst ?P) = 200" by (simp add: fixture_page3)
  have u: "req_url (fixture_request 3 10 None) = Some fixture_url" by simp
  have c: "clock fixture_world \<le> 1030" by simp
  from POST_fresh_store [OF p s u] have
    e: "1030 < expiry (snd ?P) (responseKey fixture_url 3 10 None)"
    by (auto simp: expiry_def fixture_config_def)
  from repeated_request_served_from_cache [OF p s u c] e s c
  show ?thesis by simp
qed

subsection \<open>C3: the total count\<close>



subsection \<open>C4: the page count\<close>



subsection \<open>C5: the filter\<close>

text \<open>
  C5. With a filter string given, every record of the returned results is expected to
  have a field whose lower-case form contains the lower-case filter text. A request whose
  filter is the text \<^verbatim>\<open>undefined\<close>, handled after the same request without filter, builds
  the same page key (see C10) and is answered from the cache: on the fixture it returns
  the ten unfiltered records of page 1, none of which contains that text.
\<close>

theorem filter_undefined_replays_unfiltered_page:
  "status (fst (POST fixture_config (fixture_request 1 10 (Some ''undefined''))
       (snd (POST fixture_config (fixture_request 1 10 None) fixture_world)))) = 200
   \<and> length (results_of (body (fst (POST fixture_config (fixture_request 1 10 (Some ''undefined''))
       (snd (POST fixture_config (fixture_request 1 10 None) fixture_world)))))) = 10
   \<and> \<not> list_ex (matches ''undefined'')
       (results_of (body (fst (POST fixture_config (fixture_request 1 10 (Some ''undefined''))
         (snd (POST fixture_config (fixture_request 1 10 None) fixture_world))))))"
  using fixture_none_undefined by (simp add: fixture_replay)

text \<open>
  On the path that computes the page the callback does what is expected, for a filter and
  fields of ASCII characters: the results are exactly the records numbered \<open>from\<close> to
  \<open>to\<close> that have a matching field, in the order of the stream. (The callback treats the
  empty filter as absent; then every record is kept, and every record matches the empty
  text as soon as no row is without fields.)
\<close>

theorem computed_page_is_filtered:
  assumes "POST cfg req w = (resp, w')" "status resp = 200" "req_url req = Some u"
    and "live w (responseKey u (page_of req) (limit_of req) (req_filter req)) = None"
    and "req_filter req = Some f"
    and "remote w u = Inr res"
    and "f \<noteq> [] \<or> Fields [] \<notin> set (rows res)"
    and "ascii f" "list_all (\<lambda>row. list_all ascii (the_fields row)) (rows res)"
  shows "\<exists>d. body resp = DataJson d \<and>
      list_all (matches f) (results d) \<and>
      results d = filter (matches f)
        (numbered ((page_of req - 1) * limit_of req)
           ((page_of req - 1) * limit_of req + limit_of req) (rows res))"
proof -
  let ?key = "responseKey u (page_of req) (limit_of req) (req_filter req)"
  let ?from = "(page_of req - 1) * limit_of req"
  let ?w0 = "w\<lparr>trace := trace w @ [Connect]\<rparr>"
  from POST_200 [OF assms(1,2)] assms(3) obtain w1 where
    v: "first_violated cfg req = None" and
    s: "serve cfg u (req_filter req) (page_of req) (limit_of req) ?w0 = (Inr resp, w1)" by auto
  from valid_bounds [OF v] have b: "1 \<le> page_of req" "1 \<le> limit_of req" by simp_all
  from serve_200 [OF s assms(2)] assms(4) obtain t w2 rs w3 where
    rt: "resolve_total cfg u (?w0\<lparr>trace := trace ?w0 @ [RedisGet ?key]\<rparr>) = (Inr t, w2)" and
    fr: "fetch_records cfg u (req_filter req) (page_of req) (limit_of req) w2 = (Inr rs, w3)" and
    bd: "body resp = DataJson \<lparr>results = rs, pageCount = pageCount_of t (limit_of req)\<rparr>"
    by auto
  from resolve_total_frame [OF rt] assms(6) have "remote w2 u = Inr res" by simp
  from fetch_records_ok [OF this b, of cfg "req_filter req"] fr assms(5)
  have pr: "Parser_run ?from (?from + limit_of req) (on_record (Some f)) (rows res) = Inr rs"
    by simp
  from b have "0 \<le> ?from" by (intro mult_nonneg_nonneg) simp_all
  with b have pos: "0 < ?from + limit_of req" by linarith
  from Parser_run_numbered [OF pr pos]
  have rs: "rs = List.map_filter (on_record (Some f)) (numbered ?from (?from + limit_of req) (rows res))" .
  have "f \<noteq> [] \<or> (\<forall>r \<in> set (numbered ?from (?from + limit_of req) (rows res)). r \<noteq> [])"
    using assms(7) numbered_nonempty [OF pr pos] by blast
  from on_record_filter_any [OF this] rs
  have "rs = filter (matches f) (numbered ?from (?from + limit_of req) (rows res))" by simp
  moreover from this have "list_all (matches f) rs" by (simp add: list_all_iff)
  ultimately show ?thesis using bd by simp
qed

theorem computed_page_is_filtered_witness:
  "status (fst (POST fixture_config (fixture_request 1 10 (Some ''N1'')) fixture_world)) = 200 \<and>
   (\<exists>d. body (fst (POST fixture_config (fixture_request 1 10 (Some ''N1'')) fixture_world)) = DataJson d \<and>
      list_all (matches ''N1'') (results d) \<and>
      results d = [to_object fixture_header (fixture_row 1), to_object fixture_header (fixture_row 10)])"
proof -
  let ?P = "POST fixture_config (fixture_request 1 10 (Some ''N1'')) fixture_world"
  have p: "?P = (fst ?P, snd ?P)" by simp
  have u: "req_url (fixture_request 1 10 (Some ''N1'')) = Some fixture_url" by simp
  have m: "live fixture_world (responseKey fixture_url (page_of (fixture_request 1 10 (Some ''N1'')))
      (limit_of (fixture_request 1 10 (Some ''N1''))) (req_filter (fixture_request 1 10 (Some ''N1'')))) = None"
    by simp
  have f: "req_filter (fixture_request 1 10 (Some ''N1'')) = Some ''N1''" by simp
  have r: "remote fixture_world fixture_url = Inr fixture_resource" by simp
  have n: "''N1'' \<noteq> [] \<or> Fields [] \<notin> set (rows fixture_resource)" by simp
  from fixture_ascii have a: "ascii ''N1''"
    "list_all (\<lambda>row. list_all ascii (the_fields row)) (rows fixture_resource)" by simp_all
  from computed_page_is_filtered [OF p fixture_filtered_status u m f r n a] fixture_filtered_status
  show ?thesis by (simp add: fixture_filtered_window)
qed

subsection \<open>C6: no records, missing headers\<close>

text \<open>
  C6. For a valid request that is not answered from the cache, with Redis answering, the
  total resolved (it is live in the cache, or the plain fetch delivers a string and
  \<^verbatim>\<open>CACHE_EXPIRY_SECONDS\<close> is positive, so that the total is computed and cached), the
  resource fetched and the parser succeeding with the list \<open>records\<close>: if the list is empty
  the reply is 404 with the error \<^verbatim>\<open>No records found\<close>; otherwise, if some mandatory
  header is not among the keys of the first record, the reply is 400 with the error
  \<^verbatim>\<open>Mandatory headers are missing\<close>.
\<close>

theorem no_records_404_missing_headers_400:
  assumes "first_violated cfg req = None" "req_url req = Some u" "redis_error w = None"
    and "live w (responseKey u (page_of req) (limit_of req) (req_filter req)) = None"
    and "remote w u = Inr res"
    and "live w (totalKey u) \<noteq> None \<or>
      ((\<exists>csvString. data res = StringData csvString) \<and> 0 < CACHE_EXPIRY_SECONDS cfg)"
    and "Parser_run ((page_of req - 1) * limit_of req)
           ((page_of req - 1) * limit_of req + limit_of req)
           (on_record (req_filter req)) (rows res) = Inr records"
  shows "(records = [] \<longrightarrow>
           fst (POST cfg req w) =
             \<lparr>status = 404, headers = Some (DEFAULT_RESPONSE_HEADERS cfg),
              body = ErrorJson ''No records found''\<rparr>)
    \<and> (records \<noteq> [] \<and> \<not> set (MANDATORY_HEADERS cfg) \<subseteq> set (Object_keys (hd records)) \<longrightarrow>
           fst (POST cfg req w) =
             \<lparr>status = 400, headers = Some (DEFAULT_RESPONSE_HEADERS cfg),
              body = ErrorJson ''Mandatory headers are missing''\<rparr>)"
proof -
  let ?key = "responseKey u (page_of req) (limit_of req) (req_filter req)"
  let ?w0 = "w\<lparr>trace := trace w @ [Connect]\<rparr>"
  let ?w1 = "?w0\<lparr>trace := trace ?w0 @ [RedisGet ?key]\<rparr>"
  from valid_bounds [OF assms(1)] have b: "1 \<le> page_of req" "1 \<le> limit_of req" by simp_all
  have "redis_error ?w1 = None" "remote ?w1 u = Inr res"
    "live ?w1 (totalKey u) \<noteq> None \<or>
      ((\<exists>csvString. data res = StringData csvString) \<and> 0 < CACHE_EXPIRY_SECONDS cfg)"
    using assms(3,5,6) by simp_all
  from resolve_total_ok [OF this] obtain t w2 where
    rt: "resolve_total cfg u ?w1 = (Inr t, w2)" and r2: "remote w2 = remote ?w1" by blast
  from r2 assms(5) have "remote w2 u = Inr res" by simp
  from fetch_records_ok [OF this b, of cfg "req_filter req"] assms(7) obtain w3 where
    fr: "fetch_records cfg u (req_filter req) (page_of req) (limit_of req) w2 = (Inr records, w3)"
    by simp
  have "redis_error ?w0 = None" "live ?w0 ?key = None" using assms(3,4) by simp_all
  from serve_miss [OF this rt fr]
  have sv: "serve cfg u (req_filter req) (page_of req) (limit_of req) ?w0 =
      assemble cfg ?key (limit_of req) t records w3" by simp
  from POST_try_valid [OF assms(1), of ?w0] assms(2) sv
  have pt: "POST_try cfg req ?w0 = assemble cfg ?key (limit_of req) t records w3" by auto
  show ?thesis
  proof (cases records)
    case Nil
    with pt show ?thesis by (simp add: POST_def assemble_def json_error_def)
  next
    case (Cons x xs)
    with pt show ?thesis
      by (auto simp: POST_def assemble_def json_error_def Let_def list_all_iff)
  qed
qed

theorem no_records_404_missing_headers_400_witness:
  "fst (POST fixture_config (fixture_request 4 10 None) fixture_world) =
     \<lparr>status = 404, headers = Some [(''Content-Type'', ''application/json'')],
      body = ErrorJson ''No records found''\<rparr>
   \<and> fst (POST fixture_config_phone (fixture_request 3 10 None) fixture_world) =
     \<lparr>status = 400, headers = Some [(''Content-Type'', ''application/json'')],
      body = ErrorJson ''Mandatory headers are missing''\<rparr>"
proof -
  have v4: "first_violated fixture_config (fixture_request 4 10 None) = None"
    by (rule fixture_valid_any) (simp_all add: fixture_config_def)
  have v3: "first_violated fixture_config_phone (fixture_request 3 10 None) = None"
    by (rule fixture_valid_any) (simp_all add: fixture_config_phone_def fixture_config_def)
  have "fst (POST fixture_config (fixture_request 4 10 None) fixture_world) =
     \<lparr>status = 404, headers = Some (DEFAULT_RESPONSE_HEADERS fixture_config),
      body = ErrorJson ''No records found''\<rparr>"
    using no_records_404_missing_headers_400 [OF v4, of fixture_url fixture_world
        fixture_resource "[]"] fixture_window_page4
    by simp
  moreover have "fst (POST fixture_config_phone (fixture_request 3 10 None) fixture_world) =
     \<lparr>status = 400, headers = Some (DEFAULT_RESPONSE_HEADERS fixture_config_phone),
      body = ErrorJson ''Mandatory headers are missing''\<rparr>"
    using no_records_404_missing_headers_400 [OF v3, of fixture_url fixture_world
        fixture_resource "map (\<lambda>i. to_object fixture_header (fixture_row i)) [20, 21, 22, 23, 24, 25]"]
      fixture_window_page3
    by (simp add: fixture_keys fixture_config_phone_def)
  ultimately show ?thesis by (simp add: fixture_config_phone_def fixture_config_def)
qed

subsection \<open>C7: validation\<close>

text \<open>
  C7. A request whose url is missing or empty, whose url does not end in \<^verbatim>\<open>.csv\<close>, whose
  limit is at most 0 or above the largest allowed page size, or whose page is below 1, is
  answered with status 400, the default headers and the message of the first rule it
  violates (in the order url present, url suffix, limit, page); the store is untouched and
  the trace shows only the connection being opened and closed: no cache read or write and
  no fetch.
\<close>

theorem validation_failure:
  assumes "url_missing req \<or> url_not_csv req \<or> limit_out_of_range cfg req \<or> page_out_of_range req"
  shows "\<exists>r. first_violated cfg req = Some r \<and>
    POST cfg req w = (\<lparr>status = 400, headers = Some (DEFAULT_RESPONSE_HEADERS cfg), body = ErrorJson (message r)\<rparr>,
                     w\<lparr>trace := trace w @ [Connect, Disconnect]\<rparr>)"
proof -
  from assms have "first_violated cfg req \<noteq> None"
    by (auto simp: first_violated_def)
  then obtain r where r: "first_violated cfg req = Some r" by blast
  from POST_try_invalid [OF r] show ?thesis using r
    by (simp add: POST_def Let_def json_error_def)
qed

theorem validation_failure_witness:
  "limit_out_of_range fixture_config (fixture_request 1 0 None) \<and>
   POST fixture_config (fixture_request 1 0 None) fixture_world =
     (\<lparr>status = 400, headers = Some [(''Content-Type'', ''application/json'')],
       body = ErrorJson ''limit is required and should be greater than 0''\<rparr>,
      fixture_world\<lparr>trace := [Connect, Disconnect]\<rparr>)"
proof -
  have h: "limit_out_of_range fixture_config (fixture_request 1 0 None)"
    by (simp add: limit_out_of_range_def limit_of_def fixture_request_def)
  then have "url_missing (fixture_request 1 0 None) \<or> url_not_csv (fixture_request 1 0 None)
      \<or> limit_out_of_range fixture_config (fixture_request 1 0 None)
      \<or> page_out_of_range (fixture_request 1 0 None)" by simp
  from validation_failure [OF this, of fixture_world] obtain r where
    r: "first_violated fixture_config (fixture_request 1 0 None) = Some r" and
    p: "POST fixture_config (fixture_request 1 0 None) fixture_world =
          (\<lparr>status = 400, headers = Some (DEFAULT_RESPONSE_HEADERS fixture_config),
            body = ErrorJson (message r)\<rparr>,
           fixture_world\<lparr>trace := trace fixture_world @ [Connect, Disconnect]\<rparr>)" by blast
  have "first_violated fixture_config (fixture_request 1 0 None) = Some LimitRange"
    using h fixture_url_csv by (simp add: first_violated_def url_missing_def url_not_csv_def
        fixture_request_def)
  with r have "r = LimitRange" by simp
  with p h show ?thesis by (simp add: fixture_config_def fixture_world_def)
qed

subsection \<open>C8: the default headers\<close>

text \<open>
  A reply built with a \<^verbatim>\<open>headers\<close> option carries those headers; that is how the replayed
  reply of line 91 and every error reply carry the default headers.
\<close>

lemma init_headers_carried:
  assumes "headers resp = Some hs" "distinct (map (\<lambda>(k, v). toLowerCase k) hs)"
  shows "carries resp hs"
proof -
  let ?init = "map (\<lambda>(k, v). (toLowerCase k, v)) hs"
  have "set ?init \<subseteq> set (sent_headers resp)"
    using assms(1) by (auto simp: sent_headers_def Let_def)
  moreover have "(toLowerCase k, v) \<in> set ?init" if "(k, v) \<in> set hs" for k v
    using that by force
  ultimately show ?thesis by (auto simp: carries_def list_all_iff)
qed

text \<open>
  C8. Every reply is expected to carry the default headers, the reply with status 200
  after a fresh computation included. That reply is built without an init argument
  (line 191, unlike every other reply), so it is sent with the content type alone: with
  default headers that name anything besides \<^verbatim>\<open>content-type: application/json\<close>, here
  \<^verbatim>\<open>Access-Control-Allow-Origin: *\<close>, the computed reply does not carry them.
\<close>

theorem fresh_reply_without_default_headers:
  "status (fst (POST fixture_config_cors (fixture_request 3 10 None) fixture_world)) = 200
   \<and> sent_headers (fst (POST fixture_config_cors (fixture_request 3 10 None) fixture_world))
       = [(''content-type'', ''application/json'')]
   \<and> \<not> carries (fst (POST fixture_config_cors (fixture_request 3 10 None) fixture_world))
         (DEFAULT_RESPONSE_HEADERS fixture_config_cors)"
proof -
  let ?P = "POST fixture_config_cors (fixture_request 3 10 None) fixture_world"
  have p: "?P = (fst ?P, snd ?P)" by simp
  have u: "req_url (fixture_request 3 10 None) = Some fixture_url" by simp
  have m: "live fixture_world (responseKey fixture_url (page_of (fixture_request 3 10 None))
      (limit_of (fixture_request 3 10 None)) (req_filter (fixture_request 3 10 None))) = None"
    by simp
  from POST_fresh_store [OF p fixture_cors_status u m] obtain d where
    "fst ?P = \<lparr>status = 200, headers = None, body = DataJson d\<rparr>" by blast
  then show ?thesis
    by (simp add: sent_headers_def carries_def fixture_config_cors_def)
qed

subsection \<open>C9: the connection is closed\<close>

text \<open>
  C9. On every exit path of the handler the connection opened at the start is closed
  before the handler returns: whatever the request and the world, the handler adds to the
  trace one \<open>Connect\<close>, then events that neither connect nor disconnect, then one final
  \<open>Disconnect\<close>.
\<close>

theorem disconnect_on_every_exit:
  "\<exists>evs. trace (snd (POST cfg req w)) = trace w @ Connect # evs @ [Disconnect]
     \<and> Connect \<notin> set evs \<and> Disconnect \<notin> set evs"
proof -
  obtain r w1 where t: "POST_try cfg req (w\<lparr>trace := trace w @ [Connect]\<rparr>) = (r, w1)" by fastforce
  from POST_try_trace [OF t] obtain evs where
    "trace w1 = trace w @ Connect # evs" "Connect \<notin> set evs" "Disconnect \<notin> set evs" by auto
  moreover from t have "trace (snd (POST cfg req w)) = trace w1 @ [Disconnect]"
    by (simp add: POST_def Let_def)
  ultimately show ?thesis by simp
qed

theorem disconnect_on_every_exit_witness:
  "\<exists>evs. trace (snd (POST fixture_config (fixture_request 3 10 None) fixture_world)) =
       trace fixture_world @ Connect # evs @ [Disconnect]
     \<and> Connect \<notin> set evs \<and> Disconnect \<notin> set evs"
  by (rule disconnect_on_every_exit)

subsection \<open>C10: the absent filter and the text undefined\<close>

text \<open>
  C10. For every url, page and limit, the request without filter and the request whose
  filter is the text \<^verbatim>\<open>undefined\<close> build the same page key; when that key holds a live
  entry, both requests get the same reply and leave the same world.
\<close>

theorem absent_filter_shares_key_with_undefined:
  assumes "req_url req = Some u"
    and "live w (responseKey u (page_of req) (limit_of req) None) \<noteq> None"
  shows "responseKey u (page_of req) (limit_of req) None
        = responseKey u (page_of req) (limit_of req) (Some ''undefined'')
    \<and> POST cfg (req\<lparr>req_filter := Some ''undefined''\<rparr>) w = POST cfg (req\<lparr>req_filter := None\<rparr>) w"
proof -
  have k: "responseKey u (page_of req) (limit_of req) (Some ''undefined'')
      = responseKey u (page_of req) (limit_of req) None"
    by (simp add: responseKey_def)
  have "POST_try cfg (req\<lparr>req_filter := Some ''undefined''\<rparr>) w0
      = POST_try cfg (req\<lparr>req_filter := None\<rparr>) w0" if "trace w0 = trace w @ [Connect]" "store w0 = store w" "clock w0 = clock w" for w0
    using assms k that
    by (auto simp: POST_try_def serve_def redis_get_def Let_def page_of_def limit_of_def live_def
        split: option.splits)
  then show ?thesis using k by (simp add: POST_def)
qed

theorem absent_filter_shares_key_with_undefined_witness:
  "live (snd (POST fixture_config (fixture_request 3 10 None) fixture_world))
     (responseKey fixture_url 3 10 None) \<noteq> None \<and>
   responseKey fixture_url 3 10 None = responseKey fixture_url 3 10 (Some ''undefined'') \<and>
   POST fixture_config (fixture_request 3 10 (Some ''undefined''))
     (snd (POST fixture_config (fixture_request 3 10 None) fixture_world)) =
   POST fixture_config (fixture_request 3 10 None)
     (snd (POST fixture_config (fixture_request 3 10 None) fixture_world))"
proof -
  let ?P = "POST fixture_config (fixture_request 3 10 None) fixture_world"
  have p: "?P = (fst ?P, snd ?P)" by simp
  have s: "status (fst ?P) = 200" by (simp add: fixture_page3)
  have u: "req_url (fixture_request 3 10 None) = Some fixture_url" by simp
  have m: "live fixture_world (responseKey fixture_url (page_of (fixture_request 3 10 None))
      (limit_of (fixture_request 3 10 None)) (req_filter (fixture_request 3 10 None))) = None"
    by simp
  from POST_fresh_store [OF p s u m] obtain d where
    "store (snd ?P) (responseKey fixture_url 3 10 None)
       = Some (Stringified d, 1000 + CACHE_EXPIRY_SECONDS fixture_config)"
    "clock (snd ?P) = 1000" by auto
  then have l: "live (snd ?P) (responseKey fixture_url (page_of (fixture_request 3 10 None))
          (limit_of (fixture_request 3 10 None)) None) \<noteq> None"
    by (simp add: live_def fixture_config_def)
  have r: "(fixture_request 3 10 None)\<lparr>req_filter := g\<rparr> = fixture_request 3 10 g" for g
    by (simp add: fixture_request_def)
  from absent_filter_shares_key_with_undefined [OF u l, of fixture_config] l
  show ?thesis by (simp add: r)
qed

end
